theory Spec2Isabelle
  imports Main "HOL-Library.Word"
begin

section \<open>Strings and internal paths\<close>

text \<open>
  Names are Python strings; the model keeps them as \<open>string\<close> (a list of 8-bit
  characters) and gives \<open>str.lower\<close>, \<open>str.upper\<close> and the substring test \<open>a in b\<close>
  their meaning on ASCII letters.
\<close>

type_synonym bytes = "8 word list"

definition lower_char :: "char \<Rightarrow> char" where
  "lower_char c =
     (let n = (of_char c :: nat) in if 65 \<le> n \<and> n \<le> 90 then char_of (n + 32) else c)"

definition upper_char :: "char \<Rightarrow> char" where
  "upper_char c =
     (let n = (of_char c :: nat) in if 97 \<le> n \<and> n \<le> 122 then char_of (n - 32) else c)"

definition lower :: "string \<Rightarrow> string" where
  "lower s = map lower_char s"

definition upper :: "string \<Rightarrow> string" where
  "upper s = map upper_char s"

fun starts_with :: "string \<Rightarrow> string \<Rightarrow> bool" where
  "starts_with [] s = True"
| "starts_with (p # ps) [] = False"
| "starts_with (p # ps) (c # cs) = (p = c \<and> starts_with ps cs)"

text \<open>\<open>contains a b\<close> is Python's \<open>a in b\<close> on strings.\<close>

fun contains :: "string \<Rightarrow> string \<Rightarrow> bool" where
  "contains a [] = (a = [])"
| "contains a (c # cs) = (starts_with a (c # cs) \<or> contains a cs)"

text \<open>
  \<open>pathlib.Path(p).parts\<close> for the POSIX flavour: the string is cut at every \<open>/\<close>,
  empty and \<open>.\<close> components are dropped, and a leading slash (or exactly two) is
  kept as an anchor component.
\<close>

fun split_on :: "char \<Rightarrow> string \<Rightarrow> string list" where
  "split_on sep [] = [[]]"
| "split_on sep (c # cs) =
     (if c = sep then [] # split_on sep cs
      else (case split_on sep cs of [] \<Rightarrow> [[c]] | p # ps \<Rightarrow> (c # p) # ps))"

definition path_anchor :: "string \<Rightarrow> string list" where
  "path_anchor s =
     (if starts_with ''//'' s \<and> \<not> starts_with ''///'' s then [''//'']
      else if starts_with ''/'' s then [''/'']
      else [])"

definition path_tail_parts :: "string \<Rightarrow> string list" where
  "path_tail_parts s = filter (\<lambda>p. p \<noteq> [] \<and> p \<noteq> ''.'') (split_on CHR ''/'' s)"

definition path_parts :: "string \<Rightarrow> string list" where
  "path_parts s = path_anchor s @ path_tail_parts s"

text \<open>\<open>Path(p).name\<close>: the last component, empty when there is none besides the anchor.\<close>

definition path_name :: "string \<Rightarrow> string" where
  "path_name s = (case path_tail_parts s of [] \<Rightarrow> [] | p # ps \<Rightarrow> last (p # ps))"

text \<open>\<open>Path(p).parent.parts\<close>: all components but the last one.\<close>

definition path_parent_parts :: "string \<Rightarrow> string list" where
  "path_parent_parts s = path_anchor s @ butlast (path_tail_parts s)"

text \<open>\<open>"/".join(parts)\<close>.\<close>

fun join_parts :: "string list \<Rightarrow> string" where
  "join_parts [] = []"
| "join_parts [p] = p"
| "join_parts (p # q # ps) = p @ CHR ''/'' # join_parts (q # ps)"

section \<open>The archive tree\<close>

text \<open>
  A node is a file with a byte payload or a directory with its children in iteration
  order. A handle on a node (\<open>VfsNode\<close>) is the list of child positions that leads to
  it from the root; the root's handle is the empty list.
\<close>

datatype node = File string bytes | Dir string "node list"

type_synonym noderef = "nat list"

fun nname :: "node \<Rightarrow> string" where
  "nname (File n d) = n"
| "nname (Dir n cs) = n"


fun children :: "node \<Rightarrow> node list" where
  "children (File n d) = []"
| "children (Dir n cs) = cs"

datatype error = ValueError | NodeNotFound | AttributeError | StoreError | HostError

subsection \<open>The node store\<close>

text \<open>
  Modelled from the spec: the node store (\<open>zenkit.Vfs\<close> and \<open>zenkit.VfsNode\<close>) is an
  external library that is not part of the sources. Section 6 of the specification gives
  its contract: a root node, \<open>find(name)\<close> as a global lookup, \<open>Node.create(name, data?)\<close>,
  \<open>Node.remove(name)\<close>, children iterated in creation order, \<open>isDirectory\<close>, \<open>name\<close>
  and \<open>data\<close>. The contract leaves the case sensitivity of the store's name comparison
  open, so it is the parameter \<open>ci\<close> of every lookup (\<open>True\<close>: names are compared
  ignoring case). A node handle is always truthy.
\<close>

definition name_eq :: "bool \<Rightarrow> string \<Rightarrow> string \<Rightarrow> bool" where
  "name_eq ci a b = (if ci then lower a = lower b else a = b)"

fun node_at :: "node \<Rightarrow> noderef \<Rightarrow> node option" where
  "node_at t [] = Some t"
| "node_at (File n d) (i # r) = None"
| "node_at (Dir n cs) (i # r) = (if i < length cs then node_at (cs ! i) r else None)"

text \<open>The position of the first child whose name is the one asked for.\<close>

fun child_index :: "bool \<Rightarrow> string \<Rightarrow> node list \<Rightarrow> nat option" where
  "child_index ci name [] = None"
| "child_index ci name (c # cs) =
     (if name_eq ci (nname c) name then Some 0 else map_option Suc (child_index ci name cs))"

fun bump :: "noderef \<Rightarrow> noderef" where
  "bump [] = []"
| "bump (i # r) = Suc i # r"

text \<open>
  Modelled from the spec: \<open>Vfs.find(name)\<close>, the global lookup. It walks the tree below
  the root in pre-order (a child, then that child's subtree, then the next child) and
  returns the first node that bears the name.
\<close>

fun find_in :: "bool \<Rightarrow> string \<Rightarrow> node list \<Rightarrow> noderef option" where
  "find_in ci name [] = None"
| "find_in ci name (File n d # cs) =
     (if name_eq ci n name then Some [0] else map_option bump (find_in ci name cs))"
| "find_in ci name (Dir n ds # cs) =
     (if name_eq ci n name then Some [0]
      else (case find_in ci name ds of
              Some r \<Rightarrow> Some (0 # r)
            | None \<Rightarrow> map_option bump (find_in ci name cs)))"

definition vfs_find :: "bool \<Rightarrow> node \<Rightarrow> string \<Rightarrow> noderef option" where
  "vfs_find ci root name = find_in ci name (children root)"

text \<open>Modelled from the spec: \<open>VfsNode.get_child(name)\<close>, a lookup among the direct children.\<close>

definition get_child :: "bool \<Rightarrow> node \<Rightarrow> noderef \<Rightarrow> string \<Rightarrow> noderef option" where
  "get_child ci root r name =
     (case node_at root r of
        None \<Rightarrow> None
      | Some p \<Rightarrow> map_option (\<lambda>i. r @ [i]) (child_index ci name (children p)))"

text \<open>\<open>map_at f r t\<close> rewrites the node that the handle \<open>r\<close> designates.\<close>

fun map_at :: "(node \<Rightarrow> node) \<Rightarrow> noderef \<Rightarrow> node \<Rightarrow> node" where
  "map_at f [] t = f t"
| "map_at f (i # r) (File n d) = File n d"
| "map_at f (i # r) (Dir n cs) =
     (if i < length cs then Dir n (cs[i := map_at f r (cs ! i)]) else Dir n cs)"

definition new_node :: "string \<Rightarrow> bytes option \<Rightarrow> node" where
  "new_node name data = (case data of None \<Rightarrow> Dir name [] | Some d \<Rightarrow> File name d)"

fun add_child :: "node \<Rightarrow> node \<Rightarrow> node" where
  "add_child c (File n d) = File n d"
| "add_child c (Dir n cs) = Dir n (cs @ [c])"

text \<open>
  Modelled from the spec: \<open>VfsNode.create(name, data)\<close>. Without data it makes a
  directory, with data a file; the new node becomes the last child (children iterate in
  creation order) whether or not a sibling already bears the name (section 4.3). The
  contract does not say what creating below a file node does; the model reports it as
  the store's error.
\<close>

definition create :: "node \<Rightarrow> noderef \<Rightarrow> string \<Rightarrow> bytes option \<Rightarrow> error + (noderef \<times> node)" where
  "create root r name data =
     (case node_at root r of
        Some (Dir n cs) \<Rightarrow> Inr (r @ [length cs], map_at (add_child (new_node name data)) r root)
      | _ \<Rightarrow> Inl StoreError)"

text \<open>
  Modelled from the spec: \<open>VfsNode.remove(name)\<close> takes the first child that bears the
  name out of the directory, and does nothing when there is none.
\<close>

fun remove_first :: "bool \<Rightarrow> string \<Rightarrow> node list \<Rightarrow> node list" where
  "remove_first ci name [] = []"
| "remove_first ci name (c # cs) =
     (if name_eq ci (nname c) name then cs else c # remove_first ci name cs)"

fun remove_child :: "bool \<Rightarrow> string \<Rightarrow> node \<Rightarrow> node" where
  "remove_child ci name (File n d) = File n d"
| "remove_child ci name (Dir n cs) = Dir n (remove_first ci name cs)"

definition remove :: "bool \<Rightarrow> node \<Rightarrow> noderef \<Rightarrow> string \<Rightarrow> node" where
  "remove ci root r name = map_at (remove_child ci name) r root"

section \<open>The handler\<close>

subsection \<open>Loading an archive: the cached file count\<close>

text \<open>
  \<open>count_nodes\<close> of \<open>_initialize_vfs\<close>. The counter is the handler's field
  \<open>_node_count\<close>, threaded through the calls. The statement
  \<open>self._node_count += count_nodes(child)\<close> reads the field first, then runs the call
  (which itself advances the field and returns its final value), and stores the sum of
  the value read and the value returned.
\<close>

fun count_nodes :: "node list \<Rightarrow> nat \<Rightarrow> nat" where
  "count_nodes [] c = c"
| "count_nodes (File n d # cs) c = count_nodes cs (c + 1)"
| "count_nodes (Dir n ds # cs) c = count_nodes cs (c + count_nodes ds c)"

record handler =
  vfs_root :: node
  node_count :: nat

text \<open>
  \<open>__init__\<close> with \<open>_initialize_vfs\<close>: the tree \<open>t\<close> is what mounting the archive
  gives (the empty root for a new archive); the count starts at 0.
\<close>

definition initialize_vfs :: "node \<Rightarrow> handler" where
  "initialize_vfs t = \<lparr>vfs_root = t, node_count = count_nodes (children t) 0\<rparr>"

text \<open>The number of file nodes below a list of nodes, for comparison.\<close>

fun file_total :: "node list \<Rightarrow> nat" where
  "file_total [] = 0"
| "file_total (File n d # cs) = 1 + file_total cs"
| "file_total (Dir n ds # cs) = file_total ds + file_total cs"

subsection \<open>Resolving a directory path\<close>

text \<open>
  \<open>_insert_dir\<close>, on the components of its path argument (\<open>Path(internal_path).parts\<close>);
  the recursive calls of the source pass \<open>"/".join(parts[index + 1:])\<close>, whose components
  are that suffix again (lemma \<open>path_parts_suffix\<close> below). The optional \<open>parent\<close> is a
  handle or \<open>None\<close>.

  \<open>exists_loop\<close> is the first loop, the one that tests whether the whole chain is
  already there; it runs on the suffix of components that is left. \<open>node.get_child\<close>
  on the \<open>None\<close> that a failed lookup returns raises \<open>AttributeError\<close>.
\<close>

fun exists_loop :: "bool \<Rightarrow> node \<Rightarrow> string list \<Rightarrow> error + bool" where
  "exists_loop ci root [] = Inr True"
| "exists_loop ci root [p] = Inr (vfs_find ci root p \<noteq> None)"
| "exists_loop ci root (p # q # ps) =
     (case vfs_find ci root p of
        None \<Rightarrow> Inl AttributeError
      | Some r \<Rightarrow>
          (case get_child ci root r q of
             None \<Rightarrow> Inr False
           | Some m \<Rightarrow> exists_loop ci root (q # ps)))"

text \<open>
  \<open>Path(internal_path).name\<close> from the components: the last one, and the empty string
  when there is none or only the anchor.
\<close>

definition is_anchor :: "string \<Rightarrow> bool" where
  "is_anchor p = (p = ''/'' \<or> p = ''//'')"

definition parts_name :: "string list \<Rightarrow> string" where
  "parts_name ps = (if ps = [] \<or> is_anchor (last ps) then [] else last ps)"

definition parent_or_root :: "noderef option \<Rightarrow> noderef" where
  "parent_or_root parent = (case parent of None \<Rightarrow> [] | Some r \<Rightarrow> r)"

definition name_at :: "node \<Rightarrow> noderef \<Rightarrow> string" where
  "name_at root r = (case node_at root r of None \<Rightarrow> [] | Some c \<Rightarrow> nname c)"

text \<open>
  \<open>insert_loop\<close> is the second loop, again on the suffix that is left. At the last
  component it returns. At any other component it creates the directory when the lookup
  finds none, calls \<open>_insert_dir\<close> on the rest of the path, drops what that call
  returns, and goes on with the next component. A loop that runs out of components
  returns \<open>None\<close>.
\<close>

type_synonym 'a outcome = "(error \<times> node) + 'a"

fun insert_dir :: "bool \<Rightarrow> string list \<Rightarrow> noderef option \<Rightarrow> node \<Rightarrow> (noderef option \<times> node) outcome"
  and insert_loop :: "bool \<Rightarrow> noderef option \<Rightarrow> string list \<Rightarrow> node \<Rightarrow> (noderef option \<times> node) outcome"
where
  "insert_dir ci ps parent root =
     (case vfs_find ci root (parts_name ps) of
        None \<Rightarrow> insert_loop ci parent ps root
      | Some path_tail \<Rightarrow>
          if length ps = 1 then
            (case get_child ci root [] (name_at root path_tail) of
               Some c \<Rightarrow> Inr (Some path_tail, root)
             | None \<Rightarrow>
                 (case create root [] (name_at root path_tail) None of
                    Inl e \<Rightarrow> Inl (e, root)
                  | Inr (r, root') \<Rightarrow> Inr (Some r, root')))
          else
            (case exists_loop ci root ps of
               Inl e \<Rightarrow> Inl (e, root)
             | Inr True \<Rightarrow> Inr (Some path_tail, root)
             | Inr False \<Rightarrow> insert_loop ci parent ps root))"
| "insert_loop ci parent [] root = Inr (None, root)"
| "insert_loop ci parent [p] root =
     (case vfs_find ci root p of
        None \<Rightarrow>
          (case create root (parent_or_root parent) p None of
             Inl e \<Rightarrow> Inl (e, root)
           | Inr (new_parent, root') \<Rightarrow> Inr (Some new_parent, root'))
      | Some node \<Rightarrow> Inr (Some node, root))"
| "insert_loop ci parent (p # q # ps) root =
     (case vfs_find ci root p of
        None \<Rightarrow>
          (case create root (parent_or_root parent) p None of
             Inl e \<Rightarrow> Inl (e, root)
           | Inr (new_parent, root') \<Rightarrow>
               (case insert_dir ci (q # ps) (Some new_parent) root' of
                  Inl e \<Rightarrow> Inl e
                | Inr (res, root'') \<Rightarrow> insert_loop ci parent (q # ps) root''))
      | Some node \<Rightarrow>
          (case insert_dir ci (q # ps) (Some node) root of
             Inl e \<Rightarrow> Inl e
           | Inr (res, root'') \<Rightarrow> insert_loop ci parent (q # ps) root''))"

subsection \<open>Merging a host directory\<close>

text \<open>
  What the host filesystem holds at a source path: a file with its bytes or a directory
  with its entries in the order \<open>iterdir\<close> lists them. \<open>_build_file_tree\<close> turns a
  directory into \<open>{name: [entries]}\<close>, where a subdirectory is again such a dictionary
  and a file is the string of its path, kept only for \<open>Path(child).name\<close> and
  \<open>Path(child).read_bytes()\<close>; the model keeps the name and the bytes in its place.
\<close>

datatype hentry = HFile string bytes | HDir string "hentry list"

type_synonym host = "string \<Rightarrow> hentry option"

text \<open>
  \<open>_insert_recursive\<close> on one \<open>{parent_name: children}\<close> dictionary: \<open>insert_tree\<close> is
  the body of the outer loop, \<open>insert_children\<close> the inner loop over the children.
\<close>

fun insert_tree :: "bool \<Rightarrow> string \<Rightarrow> hentry list \<Rightarrow> noderef option \<Rightarrow> node \<Rightarrow> node outcome"
  and insert_children :: "bool \<Rightarrow> noderef \<Rightarrow> hentry list \<Rightarrow> node \<Rightarrow> node outcome"
where
  "insert_tree ci parent_name entries parent_node root =
     (case vfs_find ci root parent_name of
        Some parent \<Rightarrow> insert_children ci parent entries root
      | None \<Rightarrow>
          (case create root (parent_or_root parent_node) parent_name None of
             Inl e \<Rightarrow> Inl (e, root)
           | Inr (parent, root') \<Rightarrow> insert_children ci parent entries root'))"
| "insert_children ci parent [] root = Inr root"
| "insert_children ci parent (HFile n b # es) root =
     (case create root parent n (Some b) of
        Inl e \<Rightarrow> Inl (e, root)
      | Inr (r, root') \<Rightarrow> insert_children ci parent es root')"
| "insert_children ci parent (HDir n sub # es) root =
     (case insert_tree ci n sub (Some parent) root of
        Inl e \<Rightarrow> Inl e
      | Inr root' \<Rightarrow> insert_children ci parent es root')"

text \<open>
  \<open>_insert_recursive(source, parent_node=...)\<close> as \<open>insert_file\<close> calls it: the tree
  description is built from the host directory at \<open>source\<close>, under the name
  \<open>Path(source).name\<close>.
\<close>

definition insert_recursive :: "bool \<Rightarrow> host \<Rightarrow> string \<Rightarrow> noderef option \<Rightarrow> node \<Rightarrow> node outcome" where
  "insert_recursive ci hst source parent_node root =
     (case hst source of
        Some (HDir n entries) \<Rightarrow> insert_tree ci (path_name source) entries parent_node root
      | _ \<Rightarrow> Inl (HostError, root))"

subsection \<open>Inserting a file or a directory\<close>

text \<open>
  Python's \<open>not x\<close> on an optional string or byte string: true for \<open>None\<close> and for the
  empty value.
\<close>

definition absent :: "'a list option \<Rightarrow> bool" where
  "absent x = (x = None \<or> x = Some [])"

definition root_aliases :: "string list" where
  "root_aliases = [''.'', [CHR 0x5C], ''/'', [CHR ''.'', CHR 0x5C], ''./'']"

definition host_is_dir :: "host \<Rightarrow> string \<Rightarrow> bool" where
  "host_is_dir hst p = (case hst p of Some (HDir n es) \<Rightarrow> True | _ \<Rightarrow> False)"

definition read_bytes :: "host \<Rightarrow> string \<Rightarrow> bytes option" where
  "read_bytes hst p = (case hst p of Some (HFile n b) \<Rightarrow> Some b | _ \<Rightarrow> None)"

text \<open>\<open>parent.create(name, data)\<close> where \<open>parent\<close> is what \<open>_insert_dir\<close> returned.\<close>

definition create_under :: "noderef option \<Rightarrow> string \<Rightarrow> bytes option \<Rightarrow> node \<Rightarrow> (noderef option \<times> node) outcome" where
  "create_under parent name data root =
     (case parent of
        None \<Rightarrow> Inl (AttributeError, root)
      | Some r \<Rightarrow>
          (case create root r name data of
             Inl e \<Rightarrow> Inl (e, root)
           | Inr (c, root') \<Rightarrow> Inr (Some c, root')))"

definition insert_file ::
  "bool \<Rightarrow> host \<Rightarrow> string option \<Rightarrow> string option \<Rightarrow> bytes option \<Rightarrow> node \<Rightarrow> (noderef option \<times> node) outcome" where
  "insert_file ci hst internal_path source_path content root =
     (if absent source_path then
        (if absent internal_path then Inl (ValueError, root)
         else
           (let ip = the internal_path in
            if CHR ''.'' \<notin> set ip then insert_dir ci (path_parts ip) None root
            else if absent content then Inl (ValueError, root)
            else if \<not> length (path_parts ip) > 1 then create_under (Some []) (upper ip) content root
            else
              (case insert_dir ci (path_parent_parts ip) None root of
                 Inl e \<Rightarrow> Inl e
               | Inr (internal_parent, root') \<Rightarrow>
                   create_under internal_parent (upper (path_name ip)) content root')))
      else
        (let sp = the source_path in
         if host_is_dir hst sp then
           (if absent internal_path \<or> the internal_path \<in> set root_aliases then
              (case insert_recursive ci hst sp None root of
                 Inl e \<Rightarrow> Inl e
               | Inr root' \<Rightarrow> Inr (None, root'))
            else
              (case insert_dir ci (path_parts (the internal_path)) None root of
                 Inl e \<Rightarrow> Inl e
               | Inr (internal_parent, root') \<Rightarrow>
                   (case insert_recursive ci hst sp internal_parent root' of
                      Inl e \<Rightarrow> Inl e
                    | Inr root'' \<Rightarrow> Inr (None, root''))))
         else if absent internal_path \<or> the internal_path \<in> set root_aliases then
           (case read_bytes hst sp of
              None \<Rightarrow> Inl (HostError, root)
            | Some b \<Rightarrow> create_under (Some []) (upper (path_name sp)) (Some b) root)
         else
           (case insert_dir ci (path_parts (the internal_path)) None root of
              Inl e \<Rightarrow> Inl e
            | Inr (None, root') \<Rightarrow> Inl (AttributeError, root')
            | Inr (Some internal_parent, root') \<Rightarrow>
                (case read_bytes hst sp of
                   None \<Rightarrow> Inl (HostError, root')
                 | Some b \<Rightarrow>
                     create_under (Some internal_parent) (upper (path_name sp)) (Some b) root'))))"

subsection \<open>Exporting to the host filesystem\<close>

text \<open>
  The host filesystem that the exports write to: what stands at each absolute path (a
  list of components; the empty list is the filesystem root). A relative destination is
  resolved against the working directory, and a node's name is taken as one path
  component. \<open>mkdir(parents=True, exist_ok=True)\<close> makes every missing directory on the
  way and fails when a file is in the way; \<open>write_bytes\<close> fails when the parent is not a
  directory or the target is one. A failure carries the filesystem as it is then.
\<close>

datatype hobj = HostDir | HostFile bytes

type_synonym hpath = "string list"

type_synonym hostfs = "hpath \<Rightarrow> hobj option"

type_synonym 'a houtcome = "(error \<times> hostfs) + 'a"

definition fs_is_dir :: "hostfs \<Rightarrow> hpath \<Rightarrow> bool" where
  "fs_is_dir fs p = (p = [] \<or> fs p = Some HostDir)"

fun mkdir_from :: "hpath \<Rightarrow> string list \<Rightarrow> hostfs \<Rightarrow> hostfs houtcome" where
  "mkdir_from done [] fs = Inr fs"
| "mkdir_from done (c # cs) fs =
     (case fs (done @ [c]) of
        Some (HostFile b) \<Rightarrow> Inl (HostError, fs)
      | _ \<Rightarrow> mkdir_from (done @ [c]) cs (fs(done @ [c] \<mapsto> HostDir)))"

definition mkdir_parents :: "hpath \<Rightarrow> hostfs \<Rightarrow> hostfs houtcome" where
  "mkdir_parents p fs = mkdir_from [] p fs"

definition write_bytes :: "hpath \<Rightarrow> bytes \<Rightarrow> hostfs \<Rightarrow> hostfs houtcome" where
  "write_bytes p d fs =
     (if fs_is_dir fs p \<or> \<not> fs_is_dir fs (butlast p) then Inl (HostError, fs)
      else Inr (fs(p \<mapsto> HostFile d)))"

definition host_path :: "hpath \<Rightarrow> string \<Rightarrow> hpath" where
  "host_path cwd s = (if path_anchor s = [] then cwd @ path_tail_parts s else path_tail_parts s)"

text \<open>\<open>if not destination: destination = Path.cwd()\<close>, then \<open>Path(destination)\<close>.\<close>

definition dest_path :: "hpath \<Rightarrow> string option \<Rightarrow> hpath" where
  "dest_path cwd destination = (if absent destination then cwd else host_path cwd (the destination))"

text \<open>\<open>_export_recursive(node, destination)\<close>, on the children of \<open>node\<close>.\<close>

fun export_recursive :: "node list \<Rightarrow> hpath \<Rightarrow> hostfs \<Rightarrow> hostfs houtcome" where
  "export_recursive [] dest fs = Inr fs"
| "export_recursive (File n d # cs) dest fs =
     (case write_bytes (dest @ [n]) d fs of
        Inl e \<Rightarrow> Inl e
      | Inr fs' \<Rightarrow> export_recursive cs dest fs')"
| "export_recursive (Dir n ds # cs) dest fs =
     (case mkdir_parents (dest @ [n]) fs of
        Inl e \<Rightarrow> Inl e
      | Inr fs' \<Rightarrow>
          (case export_recursive ds (dest @ [n]) fs' of
             Inl e \<Rightarrow> Inl e
           | Inr fs'' \<Rightarrow> export_recursive cs dest fs''))"

text \<open>The local function \<open>traverse\<close> of \<open>export_file\<close>, on the children of its node.\<close>

fun traverse :: "node list \<Rightarrow> string \<Rightarrow> hpath \<Rightarrow> hostfs \<Rightarrow> hostfs houtcome" where
  "traverse [] target export_dir fs = Inr fs"
| "traverse (Dir n ds # cs) target export_dir fs =
     (case traverse ds target export_dir fs of
        Inl e \<Rightarrow> Inl e
      | Inr fs' \<Rightarrow> traverse cs target export_dir fs')"
| "traverse (File n d # cs) target export_dir fs =
     (if contains (lower target) (lower n) then
        (case write_bytes (export_dir @ [n]) d fs of
           Inl e \<Rightarrow> Inl e
         | Inr fs' \<Rightarrow> traverse cs target export_dir fs')
      else traverse cs target export_dir fs)"

definition export_file ::
  "bool \<Rightarrow> hpath \<Rightarrow> node \<Rightarrow> string \<Rightarrow> string option \<Rightarrow> bool \<Rightarrow> hostfs \<Rightarrow> hostfs houtcome" where
  "export_file ci cwd root node_name destination all_with_name fs =
     (case mkdir_parents (dest_path cwd destination) fs of
        Inl e \<Rightarrow> Inl e
      | Inr fs' \<Rightarrow>
          if \<not> all_with_name then
            (case vfs_find ci root node_name of
               None \<Rightarrow> Inl (NodeNotFound, fs')
             | Some r \<Rightarrow>
                 (case node_at root r of
                    None \<Rightarrow> Inl (StoreError, fs')
                  | Some (Dir n ds) \<Rightarrow> export_recursive ds (dest_path cwd destination) fs'
                  | Some (File n d) \<Rightarrow> write_bytes (dest_path cwd destination @ [n]) d fs'))
          else traverse (children root) node_name (dest_path cwd destination) fs')"

text \<open>
  \<open>export_all\<close>: the export runs inside \<open>try\<close>, so a failure is logged and the call
  returns; on success the log line reports \<open>self.node_count\<close> files.
\<close>

datatype report = Extracted nat | ExportFailed

definition export_all :: "hpath \<Rightarrow> handler \<Rightarrow> string option \<Rightarrow> hostfs \<Rightarrow> (report \<times> hostfs) houtcome" where
  "export_all cwd h destination fs =
     (case mkdir_parents (dest_path cwd destination) fs of
        Inl e \<Rightarrow> Inl e
      | Inr fs' \<Rightarrow>
          (case export_recursive (children (vfs_root h)) (dest_path cwd destination) fs' of
             Inl (e, fs'') \<Rightarrow> Inr (ExportFailed, fs'')
           | Inr fs'' \<Rightarrow> Inr (Extracted (node_count h), fs'')))"

subsection \<open>Removing nodes\<close>

text \<open>
  \<open>remove_file\<close>. \<open>remove_from\<close> is the call on a directory \<open>parent\<close> whose
  children are \<open>cs\<close>; \<open>remove_loop\<close> is its loop over these children as they were when
  the loop started, with \<open>pos\<close> the position in \<open>parent\<close> of the child at hand: a removal takes
  the first child that bears the name, which is the child at hand or one before it, so
  the next child is then at \<open>pos\<close> (lemma \<open>remove_first_position\<close> below), and at
  \<open>pos + 1\<close> when nothing was removed.
  The existence test raises \<open>NodeNotFound\<close> before the \<open>try\<close>; inside the loop the
  only exception is the one a recursive call raises there, which the \<open>except\<close> clause of
  the calling level catches: its loop stops and it returns with the failure logged (the
  flag \<open>False\<close>).
\<close>

definition name_matches :: "bool \<Rightarrow> string \<Rightarrow> string \<Rightarrow> bool" where
  "name_matches all_with_name file_name n =
     (if all_with_name then contains (lower file_name) (lower n) else lower n = file_name)"

fun remove_from :: "bool \<Rightarrow> string \<Rightarrow> bool \<Rightarrow> noderef \<Rightarrow> node list \<Rightarrow> node \<Rightarrow> (bool \<times> node) outcome"
  and remove_loop :: "bool \<Rightarrow> string \<Rightarrow> bool \<Rightarrow> noderef \<Rightarrow> nat \<Rightarrow> node list \<Rightarrow> node \<Rightarrow> bool \<times> node"
where
  "remove_from ci file_name all_with_name parent cs root =
     (if \<not> all_with_name \<and> vfs_find ci root file_name = None then Inl (NodeNotFound, root)
      else Inr (remove_loop ci file_name all_with_name parent 0 cs root))"
| "remove_loop ci file_name all_with_name parent pos [] root = (True, root)"
| "remove_loop ci file_name all_with_name parent pos (File n d # cs) root =
     (if name_matches all_with_name file_name n
      then remove_loop ci file_name all_with_name parent pos cs (remove ci root parent n)
      else remove_loop ci file_name all_with_name parent (pos + 1) cs root)"
| "remove_loop ci file_name all_with_name parent pos (Dir n ds # cs) root =
     (if \<not> all_with_name \<and> lower n = file_name
      then remove_loop ci file_name all_with_name parent pos cs (remove ci root parent n)
      else
        (case remove_from ci file_name all_with_name (parent @ [pos]) ds root of
           Inl (e, root') \<Rightarrow> (False, root')
         | Inr (ok, root') \<Rightarrow> remove_loop ci file_name all_with_name parent (pos + 1) cs root'))"

text \<open>The public call: \<open>parent\<close> defaults to the root.\<close>

definition remove_file :: "bool \<Rightarrow> string \<Rightarrow> noderef option \<Rightarrow> bool \<Rightarrow> node \<Rightarrow> (bool \<times> node) outcome" where
  "remove_file ci file_name parent all_with_name root =
     (case node_at root (parent_or_root parent) of
        None \<Rightarrow> Inl (StoreError, root)
      | Some p \<Rightarrow> remove_from ci file_name all_with_name (parent_or_root parent) (children p) root)"

section \<open>Reference functions for the statements\<close>




text \<open>Two host filesystems hold the same regular files with the same contents.\<close>

definition same_files :: "hostfs \<Rightarrow> hostfs \<Rightarrow> bool" where
  "same_files fs fs' = (\<forall>p b. (fs' p = Some (HostFile b)) = (fs p = Some (HostFile b)))"




text \<open>
  The files of a host directory at any depth, each with the name of the host directory
  that holds it, its own name and its bytes.
\<close>

fun host_files :: "string \<Rightarrow> hentry list \<Rightarrow> (string \<times> string \<times> bytes) list" where
  "host_files dn [] = []"
| "host_files dn (HFile n b # es) = (dn, n, b) # host_files dn es"
| "host_files dn (HDir n sub # es) = host_files n sub @ host_files dn es"

text \<open>
  \<open>holds_file ci dn n b cs\<close>: somewhere below \<open>cs\<close> a directory that bears the name
  \<open>dn\<close> (as the store compares names) has the file node \<open>File n b\<close> among its children.
\<close>

fun holds_file :: "bool \<Rightarrow> string \<Rightarrow> string \<Rightarrow> bytes \<Rightarrow> node list \<Rightarrow> bool" where
  "holds_file ci dn n b [] = False"
| "holds_file ci dn n b (File m d # cs) = holds_file ci dn n b cs"
| "holds_file ci dn n b (Dir m ds # cs) =
     ((name_eq ci m dn \<and> File n b \<in> set ds) \<or> holds_file ci dn n b ds \<or> holds_file ci dn n b cs)"

text \<open>
  \<open>stable t t'\<close>: every handle of \<open>t\<close> still designates a node of the same name in
  \<open>t'\<close>, with the file children it had. \<open>placed\<close> is \<open>holds_file\<close> through a handle.
\<close>

definition stable :: "node \<Rightarrow> node \<Rightarrow> bool" where
  "stable t t' =
     (\<forall>r x. node_at t r = Some x \<longrightarrow>
        (\<exists>x'. node_at t' r = Some x' \<and> nname x' = nname x \<and>
           (\<forall>n b. File n b \<in> set (children x) \<longrightarrow> File n b \<in> set (children x'))))"

definition placed :: "bool \<Rightarrow> node \<Rightarrow> string \<Rightarrow> string \<Rightarrow> bytes \<Rightarrow> bool" where
  "placed ci t dn n b =
     (\<exists>r x. r \<noteq> [] \<and> node_at t r = Some x \<and> name_eq ci (nname x) dn \<and> File n b \<in> set (children x))"




text \<open>
  A segment of a relative internal path is a component as \<open>Path.parts\<close> gives them:
  not empty, not \<open>.\<close> and free of slashes. \<open>distinct_names\<close>: the segments of a path
  bear pairwise different names, as the store compares names.
\<close>

definition segment :: "string \<Rightarrow> bool" where
  "segment p = (p \<noteq> [] \<and> p \<noteq> ''.'' \<and> CHR ''/'' \<notin> set p)"








declare insert_dir.simps [simp del]

declare insert_tree.simps [simp del]

declare remove_from.simps [simp del]

section \<open>Evaluation at concrete inputs\<close>

text \<open>
  The components of the paths used below and the results of the calls on small trees, by
  evaluation of the definitions.
\<close>

lemma parts_a_b_c: "path_parts ''a/b/c'' = [''a'', ''b'', ''c'']"
  by code_simp

lemma parts_a_b_file:
  "path_parts ''a/b/file.txt'' = [''a'', ''b'', ''file.txt'']"
  "path_parent_parts ''a/b/file.txt'' = [''a'', ''b'']"
  "path_name ''a/b/file.txt'' = ''file.txt''"
  "upper ''file.txt'' = ''FILE.TXT''"
  by code_simp+

lemma insert_dir_a_b:
  "insert_dir ci [''a'', ''b''] None (Dir rn []) =
     Inr (Some [0, 0], Dir rn [Dir ''a'' [Dir ''b'' []]])"
proof (cases ci)
  case True
  have "insert_dir True [''a'', ''b''] None (Dir rn []) =
          Inr (Some [0, 0], Dir rn [Dir ''a'' [Dir ''b'' []]])"
    by code_simp
  with True show ?thesis by simp
next
  case False
  have "insert_dir False [''a'', ''b''] None (Dir rn []) =
          Inr (Some [0, 0], Dir rn [Dir ''a'' [Dir ''b'' []]])"
    by code_simp
  with False show ?thesis by simp
qed

section \<open>The cached file count\<close>

text \<open>
  Claim C1 says that the count cached at load time equals the number of file nodes
  below the root for every tree shape. On the archive whose root holds the file
  \<open>A.TXT\<close> and then the directory \<open>B\<close> with the file \<open>C.TXT\<close>, the handler caches 3
  while the tree has 2 files: when the directory is reached the counter stands at 1, the
  nested call returns the counter it advanced to 2, and the sum 1 + 2 is stored. The
  second half of the claim holds: a successful \<open>export_all\<close> reports the cached number.
\<close>

theorem C1_count_nodes_overcounts:
  "node_count (initialize_vfs (Dir ''/'' [File ''A.TXT'' [1], Dir ''B'' [File ''C.TXT'' [2]]])) = 3
   \<and> file_total (children (Dir ''/'' [File ''A.TXT'' [1], Dir ''B'' [File ''C.TXT'' [2]]])) = 2
   \<and> map_sum fst fst
         (export_all [] (initialize_vfs (Dir ''/'' [File ''A.TXT'' [1], Dir ''B'' [File ''C.TXT'' [2]]]))
            None Map.empty) = Inr (Extracted 3)"
  by (simp add: initialize_vfs_def export_all_def dest_path_def absent_def mkdir_parents_def
      write_bytes_def fs_is_dir_def)

section \<open>Removing by exact name\<close>

text \<open>
  Claim C2 says that in exact mode every child whose name equals the given name without
  regard to case is removed. The comparison is \<open>node.name.lower() == file_name\<close>, with
  the given name left as it is, so a name given with a capital letter matches no node:
  on the tree that holds the single file \<open>FILE.TXT\<close>, removing \<open>FILE.TXT\<close> passes the
  existence test, removes nothing and logs success.
\<close>

theorem C2_remove_exact_uppercase_name:
  "remove_file ci ''FILE.TXT'' None False (Dir ''/'' [File ''FILE.TXT'' [1]]) =
     Inr (True, Dir ''/'' [File ''FILE.TXT'' [1]])"
proof (cases ci)
  case True
  have "remove_file True ''FILE.TXT'' None False (Dir ''/'' [File ''FILE.TXT'' [1]]) =
          Inr (True, Dir ''/'' [File ''FILE.TXT'' [1]])"
    by code_simp
  with True show ?thesis by simp
next
  case False
  have "remove_file False ''FILE.TXT'' None False (Dir ''/'' [File ''FILE.TXT'' [1]]) =
          Inr (True, Dir ''/'' [File ''FILE.TXT'' [1]])"
    by code_simp
  with False show ?thesis by simp
qed

section \<open>Resolving a path of three segments\<close>

text \<open>
  Claim C3 says that resolving a path none of whose segments exists creates exactly one
  directory per segment. For \<open>a/b/c\<close> on the empty tree the call creates four: the
  chain \<open>a\<close>, \<open>b\<close>, \<open>c\<close> and a second \<open>c\<close> directly below the root. The loop goes on
  after the recursive call for \<open>a\<close>; at \<open>b\<close> it calls \<open>_insert_dir("c", b)\<close>, whose
  single-segment branch finds \<open>c\<close> but not as a child of the root and creates it there.
  The node returned is the nested \<open>c\<close>.
\<close>

theorem C3_insert_dir_three_segments:
  "insert_dir ci (path_parts ''a/b/c'') None (Dir ''/'' []) =
     Inr (Some [0, 0, 0], Dir ''/'' [Dir ''a'' [Dir ''b'' [Dir ''c'' []]], Dir ''c'' []])"
proof (cases ci)
  case True
  have "insert_dir True [''a'', ''b'', ''c''] None (Dir ''/'' []) =
          Inr (Some [0, 0, 0], Dir ''/'' [Dir ''a'' [Dir ''b'' [Dir ''c'' []]], Dir ''c'' []])"
    by code_simp
  with True show ?thesis by (simp add: parts_a_b_c)
next
  case False
  have "insert_dir False [''a'', ''b'', ''c''] None (Dir ''/'' []) =
          Inr (Some [0, 0, 0], Dir ''/'' [Dir ''a'' [Dir ''b'' [Dir ''c'' []]], Dir ''c'' []])"
    by code_simp
  with False show ?thesis by (simp add: parts_a_b_c)
qed

section \<open>Inserting a file with content\<close>

text \<open>
  Claim C5: on an empty tree, \<open>insert_file\<close> with the internal path \<open>a/b/file.txt\<close> and
  content \<open>X\<close> creates the directories \<open>a\<close> and \<open>b\<close> and the file \<open>FILE.TXT\<close> with
  payload \<open>X\<close>, reached from the root through \<open>a\<close> and \<open>b\<close>, and returns that file
  node. Content is given when it is not empty: the source tests \<open>not content\<close>.
\<close>

theorem C5_insert_file_nested:
  assumes "X \<noteq> []"
  shows "insert_file ci hst (Some ''a/b/file.txt'') None (Some X) (Dir rn []) =
           Inr (Some [0, 0, 0], Dir rn [Dir ''a'' [Dir ''b'' [File ''FILE.TXT'' X]]])
         \<and> node_at (Dir rn [Dir ''a'' [Dir ''b'' [File ''FILE.TXT'' X]]]) [0, 0, 0] =
             Some (File ''FILE.TXT'' X)"
  using assms
  by (simp add: insert_file_def absent_def parts_a_b_file insert_dir_a_b create_under_def
      create_def new_node_def)

theorem C5_insert_file_nested_witness:
  "[7 :: 8 word] \<noteq> []
   \<and> insert_file True (\<lambda>p. None) (Some ''a/b/file.txt'') None (Some [7]) (Dir ''/'' []) =
       Inr (Some [0, 0, 0], Dir ''/'' [Dir ''a'' [Dir ''b'' [File ''FILE.TXT'' [7]]]])"
  using C5_insert_file_nested [of "[7]" True "\<lambda>p. None" "''/''"] by simp

section \<open>Which errors the operations raise\<close>

lemma create_error: "create root r n d = Inl e \<Longrightarrow> e = StoreError"
  by (auto simp: create_def split: option.splits node.splits)

lemma exists_loop_error: "exists_loop ci root ps = Inl e \<Longrightarrow> e = AttributeError"
  by (induction ci root ps rule: exists_loop.induct) (auto split: option.splits)

lemma insert_dir_error:
  "(insert_dir ci ps parent root = Inl (e, t) \<longrightarrow> e = AttributeError \<or> e = StoreError)"
  "(insert_loop ci parent ps root = Inl (e, t) \<longrightarrow> e = AttributeError \<or> e = StoreError)"
proof (induction ci ps parent root and ci parent ps root rule: insert_dir_insert_loop.induct)
  case (1 ci ps parent root)
  then show ?case
    by (subst insert_dir.simps)
       (auto split: option.splits sum.splits if_splits bool.splits prod.splits
             dest: create_error exists_loop_error)
next
  case (2 ci parent root)
  then show ?case by simp
next
  case (3 ci parent p root)
  then show ?case by (auto split: option.splits sum.splits prod.splits dest: create_error)
next
  case (4 ci parent p q ps root)
  then show ?case
    by (auto split: option.splits sum.splits prod.splits dest: create_error)
qed

lemma insert_tree_error:
  "(insert_tree ci pn es parent root = Inl (e, t) \<longrightarrow> e = StoreError)"
  "(insert_children ci par es root = Inl (e, t) \<longrightarrow> e = StoreError)"
proof (induction ci pn es parent root and ci par es root rule: insert_tree_insert_children.induct)
  case (1 ci parent_name entries parent_node root)
  then show ?case
    by (subst insert_tree.simps)
       (auto split: option.splits sum.splits prod.splits dest: create_error)
next
  case (2 ci parent root)
  then show ?case by simp
next
  case (3 ci parent n b es root)
  then show ?case by (auto split: sum.splits prod.splits dest: create_error)
next
  case (4 ci parent n sub es root)
  then show ?case by (auto split: sum.splits prod.splits)
qed

lemma insert_recursive_error:
  "insert_recursive ci hst src parent root = Inl (e, t) \<Longrightarrow> e = StoreError \<or> e = HostError"
  by (auto simp: insert_recursive_def insert_tree_error split: option.splits hentry.splits)

lemma create_under_error:
  "create_under parent n d root = Inl (e, t) \<Longrightarrow> e = AttributeError \<or> e = StoreError"
  by (auto simp: create_under_def split: option.splits sum.splits prod.splits dest: create_error)

lemma mkdir_from_error: "mkdir_from dn cs fs = Inl (e, f) \<Longrightarrow> e = HostError"
  by (induction dn cs fs rule: mkdir_from.induct) (auto split: option.splits hobj.splits)

lemma mkdir_from_is_dir:
  "mkdir_from dn cs fs = Inr fs' \<Longrightarrow> fs_is_dir fs dn \<Longrightarrow> fs_is_dir fs' (dn @ cs)"
proof (induction dn cs fs rule: mkdir_from.induct)
  case (1 dn fs)
  then show ?case by simp
next
  case (2 dn c cs fs)
  let ?fs = "fs(dn @ [c] \<mapsto> HostDir)"
  from "2.prems"(1) have nf: "\<forall>b. fs (dn @ [c]) \<noteq> Some (HostFile b)"
    by (auto split: option.splits hobj.splits)
  with "2.prems"(1) have m: "mkdir_from (dn @ [c]) cs ?fs = Inr fs'"
    by (auto split: option.splits hobj.splits)
  have d: "fs_is_dir ?fs (dn @ [c])" by (simp add: fs_is_dir_def)
  have "fs_is_dir fs' ((dn @ [c]) @ cs)"
  proof (cases "fs (dn @ [c])")
    case None
    from "2.IH"(1)[OF None m d] show ?thesis .
  next
    case (Some x)
    with nf have x: "x = HostDir" by (cases x) auto
    from "2.IH"(2)[OF Some x m d] show ?thesis .
  qed
  then show ?case by simp
qed

lemma mkdir_from_same_files:
  "mkdir_from dn cs fs = Inr fs' \<Longrightarrow> same_files fs fs'"
proof (induction dn cs fs rule: mkdir_from.induct)
  case (1 dn fs)
  then show ?case by (simp add: same_files_def)
next
  case (2 dn c cs fs)
  let ?fs = "fs(dn @ [c] \<mapsto> HostDir)"
  from "2.prems"(1) have nf: "\<forall>b. fs (dn @ [c]) \<noteq> Some (HostFile b)"
    by (auto split: option.splits hobj.splits)
  with "2.prems"(1) have m: "mkdir_from (dn @ [c]) cs ?fs = Inr fs'"
    by (auto split: option.splits hobj.splits)
  have "same_files ?fs fs'"
  proof (cases "fs (dn @ [c])")
    case None
    from "2.IH"(1)[OF None m] show ?thesis .
  next
    case (Some x)
    with nf have x: "x = HostDir" by (cases x) auto
    from "2.IH"(2)[OF Some x m] show ?thesis .
  qed
  moreover have "same_files fs ?fs"
    using nf by (auto simp: same_files_def)
  ultimately show ?case
    by (simp add: same_files_def)
qed

lemma write_bytes_error: "write_bytes p d fs = Inl (e, f) \<Longrightarrow> e = HostError"
  by (auto simp: write_bytes_def split: if_splits)

lemma export_recursive_error: "export_recursive cs dest fs = Inl (e, f) \<Longrightarrow> e = HostError"
  by (induction cs dest fs rule: export_recursive.induct)
     (auto simp: mkdir_parents_def split: sum.splits dest: write_bytes_error mkdir_from_error)

lemma traverse_error: "traverse cs target dir fs = Inl (e, f) \<Longrightarrow> e = HostError"
  by (induction cs target dir fs rule: traverse.induct)
     (auto split: sum.splits if_splits dest: write_bytes_error)

lemma export_file_not_found:
  "export_file ci cwd root nm dest a fs = Inl (NodeNotFound, fs') \<Longrightarrow>
     \<not> a \<and> vfs_find ci root nm = None \<and> mkdir_parents (dest_path cwd dest) fs = Inr fs'"
  by (auto simp: export_file_def mkdir_parents_def split: sum.splits if_splits option.splits node.splits
           dest: mkdir_from_error export_recursive_error write_bytes_error traverse_error)

section \<open>The precondition errors of \<open>insert_file\<close>\<close>

text \<open>
  Claim C9: \<open>insert_file\<close> raises \<open>ValueError\<close> in exactly two cases, both with the
  source path absent: the internal path is absent too, or the internal path contains a
  dot and the content is absent (absent: \<open>None\<close> or empty, the source's \<open>not\<close> test).
  The tree at the moment of the error is the tree the call started from.
\<close>

theorem C9_insert_file_value_error: 
  "(insert_file ci hst internal_path source_path content root = Inl (ValueError, t)) =
     (absent source_path \<and>
      (absent internal_path \<or> (CHR ''.'' \<in> set (the internal_path) \<and> absent content)) \<and>
      t = root)"
proof (cases "absent source_path")
  case True
  show ?thesis
  proof (cases "absent internal_path")
    case a: True
    with True show ?thesis by (auto simp: insert_file_def)
  next
    case a: False
    show ?thesis
    proof (cases "CHR ''.'' \<in> set (the internal_path)")
      case d: True
      show ?thesis
      proof (cases "absent content")
        case c: True
        with True a d show ?thesis by (auto simp: insert_file_def)
      next
        case c: False
        with True a d show ?thesis
          by (auto simp: insert_file_def Let_def split: sum.splits prod.splits
                   dest: create_under_error insert_dir_error(1)[rule_format])
      qed
    next
      case d: False
      with True a show ?thesis
        by (auto simp: insert_file_def Let_def dest: insert_dir_error(1)[rule_format])
    qed
  qed
next
  case False
  then show ?thesis
    by (auto simp: insert_file_def Let_def split: sum.splits prod.splits option.splits if_splits
             dest: create_under_error insert_dir_error(1)[rule_format] insert_recursive_error)
qed

theorem C9_insert_file_value_error_witness:
  "insert_file True (\<lambda>p. None) None None None (Dir ''/'' []) = Inl (ValueError, Dir ''/'' [])
   \<and> insert_file True (\<lambda>p. None) (Some ''a.txt'') None None (Dir ''/'' []) = Inl (ValueError, Dir ''/'' [])
   \<and> insert_file True (\<lambda>p. None) (Some ''a'') None None (Dir ''/'' []) \<noteq> Inl (ValueError, Dir ''/'' [])"
  using C9_insert_file_value_error [of True "\<lambda>p. None" None None None "Dir ''/'' []" "Dir ''/'' []"]
    C9_insert_file_value_error [of True "\<lambda>p. None" "Some ''a.txt''" None None "Dir ''/'' []" "Dir ''/'' []"]
    C9_insert_file_value_error [of True "\<lambda>p. None" "Some ''a''" None None "Dir ''/'' []" "Dir ''/'' []"]
  by (simp add: absent_def)

section \<open>Exporting by name\<close>




lemma no_zz: "\<not> name_eq True ''A.TXT'' ''zz''" "\<not> contains (lower ''zz'') (lower ''A.TXT'')"
  by code_simp+

lemma out_path: "dest_path [] (Some ''out'') = [''out'']"
  by (simp add: dest_path_def absent_def host_path_def path_anchor_def path_tail_parts_def)



section \<open>The destination directory of \<open>export_file\<close>\<close>

text \<open>
  Claim C10: \<open>export_file\<close> makes the destination directory (the working directory when
  no destination is given) before it looks the name up. When the call fails with
  \<open>NodeNotFound\<close> the destination is a directory afterwards and no file was written or
  changed; when making the directory fails, the call fails with that error whatever the
  name.
\<close>

theorem C10_export_file_destination:
  "(export_file ci cwd root node_name destination all_with_name fs = Inl (NodeNotFound, fs') \<longrightarrow>
      fs_is_dir fs' (if absent destination then cwd else host_path cwd (the destination)) \<and>
      same_files fs fs') \<and>
   (mkdir_parents (dest_path cwd destination) fs = Inl e \<longrightarrow>
      export_file ci cwd root node_name destination all_with_name fs = Inl e)"
proof (intro conjI impI)
  assume a: "export_file ci cwd root node_name destination all_with_name fs = Inl (NodeNotFound, fs')"
  from export_file_not_found[OF a]
  have m: "mkdir_from [] (dest_path cwd destination) fs = Inr fs'"
    by (simp add: mkdir_parents_def)
  from mkdir_from_is_dir[OF m]
  show "fs_is_dir fs' (if absent destination then cwd else host_path cwd (the destination))"
    by (simp add: fs_is_dir_def dest_path_def)
  from mkdir_from_same_files[OF m] show "same_files fs fs'" .
next
  assume "mkdir_parents (dest_path cwd destination) fs = Inl e"
  then show "export_file ci cwd root node_name destination all_with_name fs = Inl e"
    by (simp add: export_file_def)
qed

theorem C10_export_file_destination_witness:
  "export_file True [] (Dir ''/'' [File ''A.TXT'' [1]]) ''zz'' (Some ''out'') False Map.empty =
       Inl (NodeNotFound, [[''out''] \<mapsto> HostDir])
   \<and> fs_is_dir [[''out''] \<mapsto> HostDir] [''out'']
   \<and> same_files Map.empty [[''out''] \<mapsto> HostDir]
   \<and> mkdir_parents (dest_path [] (Some ''out'')) [[''out''] \<mapsto> HostFile []] = Inl (HostError, [[''out''] \<mapsto> HostFile []])
   \<and> export_file True [] (Dir ''/'' [File ''A.TXT'' [1]]) ''zz'' (Some ''out'') False [[''out''] \<mapsto> HostFile []] =
       Inl (HostError, [[''out''] \<mapsto> HostFile []])"
  using C10_export_file_destination [where ci = True and cwd = "[]" and root = "Dir ''/'' [File ''A.TXT'' [1]]" and node_name = "''zz''"
      and destination = "Some ''out''" and all_with_name = False and fs = Map.empty
      and fs' = "[[''out''] \<mapsto> HostDir]"]
    C10_export_file_destination [where ci = True and cwd = "[]" and root = "Dir ''/'' [File ''A.TXT'' [1]]" and node_name = "''zz''"
      and destination = "Some ''out''" and all_with_name = False and fs = "[[''out''] \<mapsto> HostFile []]"
      and e = "(HostError, [[''out''] \<mapsto> HostFile []])"]
  by (simp add: out_path mkdir_parents_def no_zz export_file_def vfs_find_def absent_def
      host_path_def path_anchor_def path_tail_parts_def)

section \<open>Handles and updates\<close>

lemma node_at_map_at:
  "node_at t r = Some x \<Longrightarrow> node_at (map_at f r t) r = Some (f x)"
proof (induction r arbitrary: t)
  case Nil
  then show ?case by simp
next
  case (Cons i r)
  then show ?case by (cases t) (auto split: if_splits)
qed



lemma node_at_append:
  "node_at t (r @ s) = (case node_at t r of None \<Rightarrow> None | Some x \<Rightarrow> node_at x s)"
proof (induction r arbitrary: t)
  case Nil
  then show ?case by simp
next
  case (Cons i r)
  then show ?case by (cases t) auto
qed



section \<open>Removing by substring\<close>

lemma name_eq_refl: "name_eq ci a a"
  by (simp add: name_eq_def)


lemma remove_first_position:
  "nname c = n \<Longrightarrow> \<exists>dn'. remove_first ci n (dn @ c # cs) = dn' @ cs \<and> length dn' = length dn"
proof (induction dn)
  case Nil
  then show ?case by (simp add: name_eq_refl)
next
  case (Cons x dn)
  show ?case
  proof (cases "name_eq ci (nname x) n")
    case True
    then have "remove_first ci n ((x # dn) @ c # cs) = (dn @ [c]) @ cs" by simp
    then show ?thesis by (metis length_Cons length_append_singleton)
  next
    case False
    from Cons.IH[OF Cons.prems] obtain dn' where
      "remove_first ci n (dn @ c # cs) = dn' @ cs" "length dn' = length dn" by blast
    with False have "remove_first ci n ((x # dn) @ c # cs) = (x # dn') @ cs \<and> length (x # dn') = length (x # dn)"
      by simp
    then show ?thesis by blast
  qed
qed











section \<open>Merging a host directory keeps the names\<close>

lemma stable_refl: "stable t t"
  by (auto simp: stable_def)

lemma stable_trans: "stable a b \<Longrightarrow> stable b c \<Longrightarrow> stable a c"
  unfolding stable_def by (metis (no_types, lifting))

lemma stable_placed: "stable t t' \<Longrightarrow> placed ci t dn n b \<Longrightarrow> placed ci t' dn n b"
  unfolding stable_def placed_def by metis

lemma map_at_add_child_file: "map_at (add_child y) q (File n b) = File n b"
  by (cases q) auto

lemma file_in_update:
  assumes "File n b \<in> set cs"
  shows "File n b \<in> set (cs[i := map_at (add_child y) q (cs ! i)])"
proof -
  from assms obtain j where j: "j < length cs" "cs ! j = File n b"
    by (auto simp: in_set_conv_nth)
  then have "(cs[i := map_at (add_child y) q (cs ! i)]) ! j = File n b"
    by (cases "i = j") (auto simp: map_at_add_child_file)
  with j(1) show ?thesis
    by (metis length_list_update nth_mem)
qed

lemma add_child_stable_at:
  "node_at t r = Some x \<Longrightarrow>
     \<exists>x'. node_at (map_at (add_child y) q t) r = Some x' \<and> nname x' = nname x \<and>
        (\<forall>n b. File n b \<in> set (children x) \<longrightarrow> File n b \<in> set (children x'))"
proof (induction r arbitrary: t q)
  case Nil
  then have tx: "t = x" by simp
  show ?case
  proof (cases q)
    case Nil
    then show ?thesis using tx by (cases x) auto
  next
    case (Cons i q')
    then show ?thesis using tx by (cases x) (auto simp: file_in_update)
  qed
next
  case (Cons j r)
  then obtain tn cs where t: "t = Dir tn cs" and j: "j < length cs"
    and n: "node_at (cs ! j) r = Some x"
    by (cases t) (auto split: if_splits)
  show ?case
  proof (cases q)
    case Nil
    then show ?thesis using t j n by (auto simp: nth_append)
  next
    case (Cons i q')
    show ?thesis
    proof (cases "i = j")
      case True
      from Cons.IH[OF n, of q'] show ?thesis
        using t j Cons True by auto
    next
      case False
      then show ?thesis using t j n Cons by auto
    qed
  qed
qed

lemma create_stable: "create t q nm data = Inr (c, t') \<Longrightarrow> stable t t'"
  unfolding stable_def
  by (auto simp: create_def split: option.splits node.splits intro: add_child_stable_at)

lemma create_file_placed:
  assumes "create t q nm (Some b) = Inr (c, t')" and "node_at t q = Some x"
  shows "node_at t' q = Some (add_child (File nm b) x) \<and> File nm b \<in> set (children (add_child (File nm b) x))
    \<and> nname (add_child (File nm b) x) = nname x"
  using assms node_at_map_at[OF assms(2), of "add_child (File nm b)"]
  by (auto simp: create_def new_node_def split: option.splits node.splits)

lemma create_ref:
  assumes "create t q nm data = Inr (c, t')"
  shows "c \<noteq> [] \<and> (\<exists>x. node_at t' c = Some x \<and> nname x = nm)"
proof -
  from assms obtain m ds where q: "node_at t q = Some (Dir m ds)" and c: "c = q @ [length ds]"
    and t': "t' = map_at (add_child (new_node nm data)) q t"
    by (auto simp: create_def split: option.splits node.splits)
  from node_at_map_at[OF q, of "add_child (new_node nm data)"]
  have "node_at t' q = Some (Dir m (ds @ [new_node nm data]))" using t' by simp
  then have "node_at t' c = Some (new_node nm data)"
    using c by (simp add: node_at_append)
  moreover have "nname (new_node nm data) = nm"
    by (simp add: new_node_def split: option.splits)
  ultimately show ?thesis using c by auto
qed

lemma find_in_ref:
  "find_in ci nm cs = Some r \<Longrightarrow>
     r \<noteq> [] \<and> (\<exists>x. node_at (Dir tn cs) r = Some x \<and> name_eq ci (nname x) nm)"
proof (induction ci nm cs arbitrary: r rule: find_in.induct)
  case (1 ci name)
  then show ?case by simp
next
  case (2 ci name n d cs)
  show ?case
  proof (cases "name_eq ci n name")
    case True
    with 2 show ?thesis by auto
  next
    case False
    with "2.prems" obtain r' where r': "find_in ci name cs = Some r'" "r = bump r'"
      by auto
    from "2.IH"[OF False r'(1)] obtain i s x where "r' = i # s" "node_at (Dir tn cs) (i # s) = Some x"
      "name_eq ci (nname x) name"
      by (cases r') auto
    with r' show ?thesis by (auto split: if_splits)
  qed
next
  case (3 ci name n ds cs)
  show ?case
  proof (cases "name_eq ci n name")
    case True
    with 3 show ?thesis by auto
  next
    case False
    show ?thesis
    proof (cases "find_in ci name ds")
      case None
      with False "3.prems" obtain r' where r': "find_in ci name cs = Some r'" "r = bump r'"
        by auto
      from "3.IH"(2)[OF False None r'(1)] obtain i s x where "r' = i # s" "node_at (Dir tn cs) (i # s) = Some x"
        "name_eq ci (nname x) name"
        by (cases r') auto
      with r' show ?thesis by (auto split: if_splits)
    next
      case (Some r')
      with False "3.prems" have r: "r = 0 # r'" by simp
      from "3.IH"(1)[OF False Some] obtain x where "node_at (Dir tn ds) r' = Some x" "name_eq ci (nname x) name"
        "r' \<noteq> []"
        by auto
      then have "node_at (Dir tn (Dir n ds # cs)) (0 # r') = Some x"
        by (cases r') auto
      with r \<open>name_eq ci (nname x) name\<close> show ?thesis by auto
    qed
  qed
qed

lemma vfs_find_ref:
  "vfs_find ci t nm = Some r \<Longrightarrow> r \<noteq> [] \<and> (\<exists>x. node_at t r = Some x \<and> name_eq ci (nname x) nm)"
proof (cases t)
  case (File n d)
  assume "vfs_find ci t nm = Some r"
  with File show ?thesis by (simp add: vfs_find_def)
next
  case (Dir tn cs)
  assume "vfs_find ci t nm = Some r"
  with Dir find_in_ref[of ci nm cs r tn] show ?thesis by (simp add: vfs_find_def)
qed

lemma holds_file_iff:
  "holds_file ci dn n b cs \<longleftrightarrow>
     (\<exists>m ds. Dir m ds \<in> set cs \<and> ((name_eq ci m dn \<and> File n b \<in> set ds) \<or> holds_file ci dn n b ds))"
  by (induction ci dn n b cs rule: holds_file.induct) auto

lemma node_at_holds:
  "node_at (Dir tn cs) (i # r) = Some x \<Longrightarrow> name_eq ci (nname x) dn \<Longrightarrow>
     File n b \<in> set (children x) \<Longrightarrow> holds_file ci dn n b cs"
proof (induction r arbitrary: tn cs i)
  case Nil
  then have x: "i < length cs" "cs ! i = x" by (auto split: if_splits)
  from Nil(3) obtain m ds where xd: "x = Dir m ds" by (cases x) auto
  with x have "Dir m ds \<in> set cs" by (metis nth_mem)
  with Nil xd show ?case by (subst holds_file_iff) auto
next
  case (Cons j r)
  then have i: "i < length cs" and n: "node_at (cs ! i) (j # r) = Some x"
    by (auto split: if_splits)
  then obtain m ds where c: "cs ! i = Dir m ds" by (cases "cs ! i") auto
  from Cons.IH[of m ds j] n c Cons.prems have "holds_file ci dn n b ds" by simp
  moreover from i c have "Dir m ds \<in> set cs" by (metis nth_mem)
  ultimately show ?case by (subst holds_file_iff) auto
qed

lemma placed_holds: "placed ci (Dir tn cs) dn n b \<Longrightarrow> holds_file ci dn n b cs"
  unfolding placed_def
proof (elim exE conjE)
  fix r x
  assume "r \<noteq> []" "node_at (Dir tn cs) r = Some x" "name_eq ci (nname x) dn" "File n b \<in> set (children x)"
  then show ?thesis
  proof (cases r)
    case Nil
    with \<open>r \<noteq> []\<close> show ?thesis by simp
  next
    case (Cons i s)
    with \<open>node_at (Dir tn cs) r = Some x\<close> have "node_at (Dir tn cs) (i # s) = Some x" by simp
    from node_at_holds[OF this \<open>name_eq ci (nname x) dn\<close> \<open>File n b \<in> set (children x)\<close>]
    show ?thesis .
  qed
qed

lemma merge_places:
  "(insert_tree ci pn es parent_node root = Inr root' \<longrightarrow>
      stable root root' \<and> (\<forall>(dn, n, b)\<in>set (host_files pn es). placed ci root' dn n b))"
  "(insert_children ci parent es root = Inr root' \<longrightarrow>
      stable root root' \<and>
      (\<forall>pn. parent \<noteq> [] \<and> (\<exists>x. node_at root parent = Some x \<and> name_eq ci (nname x) pn) \<longrightarrow>
         (\<forall>(dn, n, b)\<in>set (host_files pn es). placed ci root' dn n b)))"
proof (induction ci pn es parent_node root and ci parent es root arbitrary: root' and root'
    rule: insert_tree_insert_children.induct)
  case (1 ci parent_name entries parent_node root)
  show ?case
  proof (intro impI)
    assume a: "insert_tree ci parent_name entries parent_node root = Inr root'"
    show "stable root root' \<and> (\<forall>(dn, n, b)\<in>set (host_files parent_name entries). placed ci root' dn n b)"
    proof (cases "vfs_find ci root parent_name")
      case (Some parent)
      with a have c: "insert_children ci parent entries root = Inr root'"
        by (simp add: insert_tree.simps)
      from vfs_find_ref[OF Some] "1.IH"(2)[OF Some, of root'] c show ?thesis by blast
    next
      case None
      with a obtain parent root1 where
        cr: "create root (parent_or_root parent_node) parent_name None = Inr (parent, root1)"
        and c: "insert_children ci parent entries root1 = Inr root'"
        by (auto simp: insert_tree.simps split: sum.splits prod.splits)
      from create_ref[OF cr] have p: "parent \<noteq> [] \<and> (\<exists>x. node_at root1 parent = Some x \<and> name_eq ci (nname x) parent_name)"
        by (auto simp: name_eq_refl)
      have "(parent, root1) = (parent, root1)" ..
      from "1.IH"(1)[OF None cr this, of root'] c p create_stable[OF cr] show ?thesis
        by (blast intro: stable_trans)
    qed
  qed
next
  case (2 ci parent root)
  then show ?case by (simp add: stable_refl)
next
  case (3 ci parent n b es root)
  show ?case
  proof (intro impI)
    assume a: "insert_children ci parent (HFile n b # es) root = Inr root'"
    then obtain r root1 where cr: "create root parent n (Some b) = Inr (r, root1)"
      and c: "insert_children ci parent es root1 = Inr root'"
      by (auto split: sum.splits prod.splits)
    have "(r, root1) = (r, root1)" ..
    from "3.IH"[OF cr this, of root'] c
    have st: "stable root1 root'"
      and ih: "\<forall>pn. parent \<noteq> [] \<and> (\<exists>x. node_at root1 parent = Some x \<and> name_eq ci (nname x) pn) \<longrightarrow>
         (\<forall>(dn, n, b)\<in>set (host_files pn es). placed ci root' dn n b)"
      by blast+
    have s: "stable root root'"
      using create_stable[OF cr] st by (rule stable_trans)
    have "\<forall>(dn, m, d)\<in>set (host_files pn (HFile n b # es)). placed ci root' dn m d"
      if pne: "parent \<noteq> []" and x: "node_at root parent = Some x" "name_eq ci (nname x) pn" for pn x
    proof -
      from create_file_placed[OF cr x(1)]
      have x1: "node_at root1 parent = Some (add_child (File n b) x)"
        "File n b \<in> set (children (add_child (File n b) x))"
        "nname (add_child (File n b) x) = nname x"
        by auto
      with x(2) pne have "placed ci root1 pn n b"
        unfolding placed_def by (metis)
      with st have here: "placed ci root' pn n b" by (rule stable_placed)
      from ih pne x1 x(2) have "\<forall>(dn, n, b)\<in>set (host_files pn es). placed ci root' dn n b"
        by (metis)
      with here show ?thesis by simp
    qed
    with s show "stable root root' \<and>
      (\<forall>pn. parent \<noteq> [] \<and> (\<exists>x. node_at root parent = Some x \<and> name_eq ci (nname x) pn) \<longrightarrow>
         (\<forall>(dn, n, b)\<in>set (host_files pn (HFile n b # es)). placed ci root' dn n b))"
      by blast
  qed
next
  case (4 ci parent n sub es root)
  show ?case
  proof (intro impI)
    assume a: "insert_children ci parent (HDir n sub # es) root = Inr root'"
    then obtain root1 where it: "insert_tree ci n sub (Some parent) root = Inr root1"
      and c: "insert_children ci parent es root1 = Inr root'"
      by (auto split: sum.splits)
    from "4.IH"(1)[of root1] it
    have st1: "stable root root1" and pl1: "\<forall>(dn, n, b)\<in>set (host_files n sub). placed ci root1 dn n b"
      by blast+
    from "4.IH"(2)[OF it, of root'] c
    have st: "stable root1 root'"
      and ih: "\<forall>pn. parent \<noteq> [] \<and> (\<exists>x. node_at root1 parent = Some x \<and> name_eq ci (nname x) pn) \<longrightarrow>
         (\<forall>(dn, n, b)\<in>set (host_files pn es). placed ci root' dn n b)"
      by blast+
    have s: "stable root root'" using st1 st by (rule stable_trans)
    have "\<forall>(dn, m, d)\<in>set (host_files pn (HDir n sub # es)). placed ci root' dn m d"
      if pne: "parent \<noteq> []" and x: "node_at root parent = Some x" "name_eq ci (nname x) pn" for pn x
    proof -
      from st1 x(1) obtain x' where "node_at root1 parent = Some x'" "nname x' = nname x"
        unfolding stable_def by blast
      with ih pne x(2) have "\<forall>(dn, n, b)\<in>set (host_files pn es). placed ci root' dn n b"
        by (metis)
      moreover from pl1 st have "\<forall>(dn, n, b)\<in>set (host_files n sub). placed ci root' dn n b"
        by (auto intro: stable_placed)
      ultimately show ?thesis by auto
    qed
    with s show "stable root root' \<and>
      (\<forall>pn. parent \<noteq> [] \<and> (\<exists>x. node_at root parent = Some x \<and> name_eq ci (nname x) pn) \<longrightarrow>
         (\<forall>(dn, n, b)\<in>set (host_files pn (HDir n sub # es)). placed ci root' dn n b))"
      by blast
  qed
qed

lemma placed_holds_children: "placed ci t dn n b \<Longrightarrow> holds_file ci dn n b (children t)"
proof (cases t)
  case (File m d)
  assume "placed ci t dn n b"
  then obtain r x where "r \<noteq> []" "node_at t r = Some x" unfolding placed_def by blast
  with File show ?thesis by (cases r) auto
next
  case (Dir tn cs)
  assume "placed ci t dn n b"
  with Dir show ?thesis by (simp add: placed_holds)
qed

text \<open>
  Claim C6: when a host directory tree is merged, every file entry gives a file node
  under the tree directory resolved for its host directory, with the host file's name
  as it is (no change of case) and the host file's bytes; the single-file path
  upper-cases the name. The first part is for a merge that succeeds (it fails only when
  the node resolved for a host directory is a file).
\<close>

theorem C6_merge_keeps_names:
  "(insert_recursive ci hst source parent_node root = Inr root' \<and> hst source = Some (HDir hn entries) \<longrightarrow>
      (\<forall>(dn, n, b)\<in>set (host_files (path_name source) entries). holds_file ci dn n b (children root')))
   \<and> (hst source = Some (HFile hn b) \<and> source \<noteq> [] \<longrightarrow>
        insert_file ci hst None (Some source) content (Dir rn cs) =
          Inr (Some [length cs], Dir rn (cs @ [File (upper (path_name source)) b])))"
proof (intro conjI impI)
  assume a: "insert_recursive ci hst source parent_node root = Inr root' \<and> hst source = Some (HDir hn entries)"
  then have "insert_tree ci (path_name source) entries parent_node root = Inr root'"
    by (auto simp: insert_recursive_def)
  with merge_places(1)[of ci "path_name source" entries parent_node root root']
  have "\<forall>(dn, n, b)\<in>set (host_files (path_name source) entries). placed ci root' dn n b"
    by simp
  then show "\<forall>(dn, n, b)\<in>set (host_files (path_name source) entries). holds_file ci dn n b (children root')"
    by (auto dest: placed_holds_children)
next
  assume "hst source = Some (HFile hn b) \<and> source \<noteq> []"
  then show "insert_file ci hst None (Some source) content (Dir rn cs) =
          Inr (Some [length cs], Dir rn (cs @ [File (upper (path_name source)) b]))"
    by (simp add: insert_file_def absent_def host_is_dir_def read_bytes_def create_under_def
        create_def new_node_def)
qed

lemma merge_example:
  "insert_recursive False
      (\<lambda>p. if p = ''host/src'' then Some (HDir ''src'' [HFile ''x.txt'' [1], HDir ''sub'' [HFile ''y.Txt'' [2]]])
          else if p = ''host/a.txt'' then Some (HFile ''a.txt'' [3]) else None)
      ''host/src'' None (Dir ''/'' []) =
     Inr (Dir ''/'' [Dir ''src'' [File ''x.txt'' [1], Dir ''sub'' [File ''y.Txt'' [2]]]])"
  "upper (path_name ''host/a.txt'') = ''A.TXT''"
  "path_name ''host/src'' = ''src''"
  by code_simp+

theorem C6_merge_keeps_names_witness:
  "insert_recursive False
      (\<lambda>p. if p = ''host/src'' then Some (HDir ''src'' [HFile ''x.txt'' [1], HDir ''sub'' [HFile ''y.Txt'' [2]]])
          else if p = ''host/a.txt'' then Some (HFile ''a.txt'' [3]) else None)
      ''host/src'' None (Dir ''/'' []) =
     Inr (Dir ''/'' [Dir ''src'' [File ''x.txt'' [1], Dir ''sub'' [File ''y.Txt'' [2]]]])
   \<and> holds_file False ''src'' ''x.txt'' [1] [Dir ''src'' [File ''x.txt'' [1], Dir ''sub'' [File ''y.Txt'' [2]]]]
   \<and> holds_file False ''sub'' ''y.Txt'' [2] [Dir ''src'' [File ''x.txt'' [1], Dir ''sub'' [File ''y.Txt'' [2]]]]
   \<and> insert_file False
      (\<lambda>p. if p = ''host/src'' then Some (HDir ''src'' [HFile ''x.txt'' [1], HDir ''sub'' [HFile ''y.Txt'' [2]]])
          else if p = ''host/a.txt'' then Some (HFile ''a.txt'' [3]) else None)
      None (Some ''host/a.txt'') None (Dir ''/'' []) = Inr (Some [0], Dir ''/'' [File ''A.TXT'' [3]])"
  using C6_merge_keeps_names [where ci = False and source = "''host/src''" and parent_node = None and root = "Dir ''/'' []"
      and hst = "\<lambda>p. if p = ''host/src'' then Some (HDir ''src'' [HFile ''x.txt'' [1], HDir ''sub'' [HFile ''y.Txt'' [2]]])
          else if p = ''host/a.txt'' then Some (HFile ''a.txt'' [3]) else None"
      and root' = "Dir ''/'' [Dir ''src'' [File ''x.txt'' [1], Dir ''sub'' [File ''y.Txt'' [2]]]]"
      and hn = "''src''" and entries = "[HFile ''x.txt'' [1], HDir ''sub'' [HFile ''y.Txt'' [2]]]"]
    C6_merge_keeps_names [where ci = False and source = "''host/a.txt''" and rn = "''/''" and cs = "[]" and hn = "''a.txt''"
      and b = "[3]" and content = None
      and hst = "\<lambda>p. if p = ''host/src'' then Some (HDir ''src'' [HFile ''x.txt'' [1], HDir ''sub'' [HFile ''y.Txt'' [2]]])
          else if p = ''host/a.txt'' then Some (HFile ''a.txt'' [3]) else None"]
  by (simp add: merge_example)


section \<open>Joining and splitting paths\<close>

text \<open>
  The recursive calls of \<open>_insert_dir\<close> join a suffix of the components with slashes and
  parse the result again; this gives the suffix back, so the model may pass the suffix.
\<close>

lemma split_on_single: "sep \<notin> set p \<Longrightarrow> split_on sep p = [p]"
  by (induction p) auto

lemma split_on_append: "sep \<notin> set p \<Longrightarrow> split_on sep (p @ sep # rest) = p # split_on sep rest"
  by (induction p) auto

lemma split_on_join:
  "ps \<noteq> [] \<Longrightarrow> \<forall>p\<in>set ps. CHR ''/'' \<notin> set p \<Longrightarrow> split_on CHR ''/'' (join_parts ps) = ps"
proof (induction ps rule: join_parts.induct)
  case 1
  then show ?case by simp
next
  case (2 p)
  then show ?case by (simp add: split_on_single)
next
  case (3 p q ps)
  then show ?case by (simp add: split_on_append)
qed

lemma split_on_free: "p \<in> set (split_on sep s) \<Longrightarrow> sep \<notin> set p"
proof (induction s arbitrary: p)
  case Nil
  then show ?case by simp
next
  case (Cons c s)
  show ?case
  proof (cases "c = sep")
    case True
    with Cons show ?thesis by auto
  next
    case False
    obtain q qs where q: "split_on sep s = q # qs"
      by (cases "split_on sep s"; cases s) (auto split: if_splits list.splits)
    with False Cons.prems have "p = c # q \<or> p \<in> set qs" by auto
    with Cons.IH q False show ?thesis by auto
  qed
qed

lemma path_tail_parts_segment: "p \<in> set (path_tail_parts s) \<Longrightarrow> segment p"
  by (auto simp: path_tail_parts_def segment_def dest: split_on_free)

lemma path_anchor_join:
  assumes "\<forall>p\<in>set ps. segment p"
  shows "path_anchor (join_parts ps) = []"
proof (cases ps)
  case Nil
  then show ?thesis by (simp add: path_anchor_def)
next
  case (Cons p qs)
  with assms obtain c p' where p: "p = c # p'" "c \<noteq> CHR ''/''"
    by (cases p) (auto simp: segment_def)
  have "join_parts (p # qs) = c # p' @ (case qs of [] \<Rightarrow> [] | q # qs' \<Rightarrow> CHR ''/'' # join_parts (q # qs'))"
    using p by (cases qs) auto
  with p Cons show ?thesis by (simp add: path_anchor_def)
qed

lemma path_parts_join:
  assumes "\<forall>p\<in>set ps. segment p"
  shows "path_parts (join_parts ps) = ps"
proof (cases "ps = []")
  case True
  then show ?thesis by (simp add: path_parts_def path_anchor_def path_tail_parts_def)
next
  case False
  from assms have "\<forall>p\<in>set ps. CHR ''/'' \<notin> set p" by (simp add: segment_def)
  from split_on_join[OF False this] assms have "path_tail_parts (join_parts ps) = ps"
    by (auto simp: path_tail_parts_def segment_def intro: filter_True)
  with path_anchor_join[OF assms] show ?thesis by (simp add: path_parts_def)
qed

lemma path_parts_suffix:
  "path_parts (join_parts (drop (Suc i) (path_parts s))) = drop (Suc i) (path_parts s)"
proof (rule path_parts_join, rule ballI)
  fix p
  assume "p \<in> set (drop (Suc i) (path_parts s))"
  moreover have "length (path_anchor s) \<le> 1" by (simp add: path_anchor_def)
  ultimately have "p \<in> set (drop (Suc i - length (path_anchor s)) (path_tail_parts s))"
    by (simp add: path_parts_def)
  then have "p \<in> set (path_tail_parts s)" by (rule in_set_dropD)
  then show "segment p" by (rule path_tail_parts_segment)
qed

section \<open>Resolving the same path twice\<close>

subsection \<open>What a creation changes\<close>





























subsection \<open>A path that is already there\<close>



subsection \<open>A path that is there in part\<close>










subsection \<open>Trees whose only bearers of the segment names lie on the path\<close>
















end
